theory Spec2Isabelle
  imports Main "HOL-Library.AList" "HOL-Library.Char_ord" "HOL-Library.List_Lexorder"
begin

section \<open>Data model\<close>

text \<open>
  A Python \<^verbatim>\<open>dict\<close> with string keys is an association list in insertion order:
  \<^verbatim>\<open>k in d\<close> is \<open>map_of d k \<noteq> None\<close>, \<^verbatim>\<open>d[k] = v\<close> is \<open>AList.update k v d\<close>
  (replace in place, or append a new key at the end).  Strings are ordered as Python
  orders them, character by character.
\<close>

type_synonym 'v dict = "(string \<times> 'v) list"

datatype error =
    AssertionError string
  | KeyError string
  | ValueError string
  | TypeError string
  | FileNotFoundError string
  | RuleError string

text \<open>An entry of a rule's local pending changelog, \<^verbatim>\<open>rule.metadata['changelog']\<close>.\<close>

record change_note =
  message :: string
  note_date :: string

text \<open>
  The attributes of a \<^verbatim>\<open>Rule\<close> object that packaging.py and rule_loader.py read or write.

  Modelled from the spec: class Rule (rule.py) is not in src.  \<open>get_hash\<close> is the value
  of \<^verbatim>\<open>rule.get_hash()\<close>; by spec 4.1 it excludes the version field and the changelog
  bookkeeping, so it is an attribute that no operation below changes.
\<close>

record rule =
  path :: string
  rule_id :: string
  name :: string
  get_hash :: string
  contents_version :: "int option"
  maturity :: string
  metadata_changelog :: "change_note list option"
  minimum_kibana_version :: "string option"
  rule_type :: string
  parsed_query :: "string option"
  threshold_field :: "string option"
  threshold_value :: "int option"

text \<open>An entry of version.lock.json.\<close>

record version_lock_info =
  rule_name :: string
  version :: int
  sha256 :: string

text \<open>An entry of deprecated\_rules.json.\<close>

record deprecation =
  dep_rule_name :: string
  deprecation_date :: string
  stack_version :: string

text \<open>An entry of the global changelog, etc/rules-changelog.json.\<close>

record changelog_entry =
  changes :: "change_note list"
  entry_minimum_kibana_version :: string
  rule_version :: "int option"

type_synonym changelog = "changelog_entry list dict"

text \<open>
  The state of the process and of the files it reads and writes.

  \<open>versions\<close> is the in-memory version lock: the dict object that line 69 of packaging.py
  binds to \<^verbatim>\<open>current_versions\<close>.  It is the caller's own dict, or the memoised load of
  version.lock.json; either way the object outlives the call, and lines 86 and 88 update
  its entries in place.  The three etc files are the durable ledgers.  \<open>changelog_files\<close>
  maps a save path to the changelog written there, \<open>rule_files\<close> maps a rule path to the
  rule last written by \<^verbatim>\<open>rule.save\<close>.  \<open>production_rules\<close> is what
  \<^verbatim>\<open>rule_loader.get_production_rules(include_deprecated=True)\<close> returns, \<open>today\<close> is
  \<^verbatim>\<open>str(datetime.date.today())\<close>, \<open>CurrentSchema_STACK_VERSION\<close> the constant of the
  newest schema class.  Console output (\<^verbatim>\<open>click.echo\<close>) is not part of the state.
\<close>

record state =
  versions :: "version_lock_info dict"
  version_lock_json :: "version_lock_info dict"
  deprecated_rules_json :: "deprecation dict"
  changelog_files :: "changelog dict"
  rule_files :: "rule dict"
  production_rules :: "rule list"
  today :: string
  CurrentSchema_STACK_VERSION :: string

definition CHANGELOG_FILE :: string where
  "CHANGELOG_FILE = ''etc/rules-changelog.json''"

text \<open>\<^verbatim>\<open>d.update(other)\<close>: every item of \<open>other\<close> is stored in \<open>d\<close>, in order.\<close>

definition dict_update :: "'v dict \<Rightarrow> 'v dict \<Rightarrow> 'v dict" where
  "dict_update d other = fold (\<lambda>kv. AList.update (fst kv) (snd kv)) other d"

section \<open>packaging.py: the version lock\<close>

text \<open>
  Modelled from the spec: the decorator \<^verbatim>\<open>cached\<close> (misc.py) is not in src.  By spec 5
  and 9 the load of the version file is memoised, so \<^verbatim>\<open>load_versions(current_versions)\<close>
  hands out the in-memory object, and \<^verbatim>\<open>load_versions(bypass_cache=True)\<close> reads the
  durable file.
\<close>

definition load_versions :: "state \<Rightarrow> version_lock_info dict" where
  "load_versions st = versions st"

definition load_versions_bypass_cache :: "state \<Rightarrow> version_lock_info dict" where
  "load_versions_bypass_cache st = version_lock_json st"

text \<open>
  The loop of lines 71 to 91 of \<^verbatim>\<open>manage_versions\<close>.  It returns the rule objects with
  their version set, the lock with the entries of changed rules updated in place, the
  dict \<^verbatim>\<open>new_rules\<close> and the list \<^verbatim>\<open>changed_rules\<close>.
\<close>

fun version_rules ::
  "bool \<Rightarrow> rule list \<Rightarrow> version_lock_info dict \<Rightarrow> version_lock_info dict \<Rightarrow> string list
   \<Rightarrow> rule list \<times> version_lock_info dict \<times> version_lock_info dict \<times> string list" where
  "version_rules exclude_update [] current_versions new_rules changed_rules =
     ([], current_versions, new_rules, changed_rules)"
| "version_rules exclude_update (r # rs) current_versions new_rules changed_rules =
     (case map_of current_versions (rule_id r) of
        None \<Rightarrow>
          (case version_rules exclude_update rs current_versions
                  (AList.update (rule_id r)
                     \<lparr>rule_name = name r, version = 1, sha256 = get_hash r\<rparr> new_rules)
                  changed_rules of
             (rs', cv', new', changed') \<Rightarrow>
               (r\<lparr>contents_version := Some 1\<rparr> # rs', cv', new', changed'))
      | Some version_lock_info \<Rightarrow>
          if get_hash r \<noteq> sha256 version_lock_info then
            (case version_rules exclude_update rs
                    (AList.update (rule_id r)
                       (version_lock_info
                          \<lparr>rule_name := name r,
                           version := (if exclude_update then version version_lock_info
                                       else version version_lock_info + 1),
                           sha256 := get_hash r\<rparr>)
                       current_versions)
                    new_rules (changed_rules @ [rule_id r]) of
               (rs', cv', new', changed') \<Rightarrow>
                 (r\<lparr>contents_version := Some (version version_lock_info + 1)\<rparr> # rs',
                  cv', new', changed'))
          else
            (case version_rules exclude_update rs current_versions new_rules changed_rules of
               (rs', cv', new', changed') \<Rightarrow>
                 (r\<lparr>contents_version := Some (version version_lock_info)\<rparr> # rs',
                  cv', new', changed')))"

text \<open>The loop of lines 102 to 109: the deprecation registry and \<^verbatim>\<open>newly_deprecated\<close>.\<close>

fun deprecate_rules ::
  "string \<Rightarrow> string \<Rightarrow> rule list \<Rightarrow> deprecation dict \<Rightarrow> string list
   \<Rightarrow> deprecation dict \<times> string list" where
  "deprecate_rules date sv [] rule_deprecations newly_deprecated =
     (rule_deprecations, newly_deprecated)"
| "deprecate_rules date sv (r # rs) rule_deprecations newly_deprecated =
     (if map_of rule_deprecations (rule_id r) = None then
        deprecate_rules date sv rs
          (AList.update (rule_id r)
             \<lparr>dep_rule_name = name r, deprecation_date = date, stack_version = sv\<rparr>
             rule_deprecations)
          (newly_deprecated @ [rule_id r])
      else deprecate_rules date sv rs rule_deprecations newly_deprecated)"

text \<open>
  \<^verbatim>\<open>versions_locked\<close>, lines 151 to 161.  An empty rule list is replaced by the production
  rules (\<^verbatim>\<open>rules or ...\<close>); the loop returns False at the first rule that is not in the
  durable lock or whose hash differs.
\<close>

definition versions_locked :: "rule list \<Rightarrow> state \<Rightarrow> bool" where
  "versions_locked rules st =
     (let rules' = (if rules = [] then production_rules st else rules);
          versions = load_versions_bypass_cache st
      in list_all (\<lambda>r. case map_of versions (rule_id r) of
                          None \<Rightarrow> False
                        | Some info \<Rightarrow> get_hash r = sha256 info) rules')"

section \<open>packaging.py: the global changelog\<close>

text \<open>
  Modelled from the spec: \<^verbatim>\<open>Rule.append_changelog_entry\<close>, \<^verbatim>\<open>Rule.get_version\<close> and
  \<^verbatim>\<open>Rule.save\<close> (rule.py) and the schema \<^verbatim>\<open>ChangelogEntry\<close> (schemas/changelog.py) are
  not in src.  By spec 3 and 4.3 a note is appended to the rule's local log, the entry is
  the record of the three fields with \<open>rule_version\<close> the rule's current version, and
  saving writes the rule to its path.
\<close>

definition append_changelog_entry :: "string \<Rightarrow> string \<Rightarrow> rule \<Rightarrow> rule" where
  "append_changelog_entry msg date r =
     r\<lparr>metadata_changelog :=
         Some ((case metadata_changelog r of None \<Rightarrow> [] | Some ns \<Rightarrow> ns)
               @ [\<lparr>message = msg, note_date = date\<rparr>])\<rparr>"

definition get_version :: "rule \<Rightarrow> int option" where
  "get_version r = contents_version r"

definition save_rule :: "rule \<Rightarrow> rule dict \<Rightarrow> rule dict" where
  "save_rule r files = AList.update (path r) r files"

definition default_changes :: "string list" where
  "default_changes = [''_version_locked_'', ''_rule_created_'']"

text \<open>The notes of a local log that are not sentinels (line 214).\<close>

definition substantive :: "change_note list \<Rightarrow> change_note list" where
  "substantive rule_changelog = filter (\<lambda>c. message c \<notin> set default_changes) rule_changelog"

text \<open>
  The body of the loop of lines 210 to 237 for one rule.  The result is the exception
  raised, if any, the rule object, the local dict \<^verbatim>\<open>changelog\<close> and the rule files.  In a
  dry run a rule without a local log makes line 214 iterate over None; a rule with
  substantive changes and no \<^verbatim>\<open>minimum_kibana_version\<close> raises at line 220, after its
  log was popped.
\<close>

definition update_rule ::
  "bool \<Rightarrow> string \<Rightarrow> rule \<Rightarrow> changelog \<Rightarrow> rule dict
   \<Rightarrow> error option \<times> rule \<times> changelog \<times> rule dict" where
  "update_rule dry_run date r changelog files =
     (case (if dry_run then metadata_changelog r
            else Some (case metadata_changelog r of None \<Rightarrow> [] | Some ns \<Rightarrow> ns)) of
        None \<Rightarrow> (Some (TypeError ''NoneType is not iterable''), r, changelog, files)
      | Some rule_changelog \<Rightarrow>
          (let r0 = (if dry_run then r else r\<lparr>metadata_changelog := None\<rparr>)
           in if substantive rule_changelog \<noteq> [] then
                (case minimum_kibana_version r0 of
                   None \<Rightarrow> (Some (KeyError ''minimum_kibana_version''), r0, changelog, files)
                 | Some mkv \<Rightarrow>
                     (let global_entry = (case map_of changelog (rule_id r0) of
                                            None \<Rightarrow> [] | Some es \<Rightarrow> es);
                          entry = \<lparr>changes = substantive rule_changelog,
                                   entry_minimum_kibana_version = mkv,
                                   rule_version = get_version r0\<rparr>;
                          changelog' = AList.update (rule_id r0) (global_entry @ [entry]) changelog
                      in if dry_run then (None, r0, changelog', files)
                         else
                           (let r1 = (if maturity r0 \<noteq> ''deprecated''
                                      then append_changelog_entry ''_version_locked_'' date r0
                                      else r0)
                            in (None, r1, changelog', save_rule r1 files))))
              else (None, r0\<lparr>metadata_changelog := Some rule_changelog\<rparr>, changelog, files)))"

text \<open>The loop itself: it stops at the first exception, keeping what was done before.\<close>

fun update_rules ::
  "bool \<Rightarrow> string \<Rightarrow> rule list \<Rightarrow> changelog \<Rightarrow> rule dict
   \<Rightarrow> error option \<times> rule list \<times> changelog \<times> rule dict" where
  "update_rules dry_run date [] changelog files = (None, [], changelog, files)"
| "update_rules dry_run date (r # rs) changelog files =
     (case update_rule dry_run date r changelog files of
        (Some e, r', changelog', files') \<Rightarrow> (Some e, r' # rs, changelog', files')
      | (None, r', changelog', files') \<Rightarrow>
          (case update_rules dry_run date rs changelog' files' of
             (e, rs', changelog'', files'') \<Rightarrow> (e, r' # rs', changelog'', files'')))"

text \<open>
  \<^verbatim>\<open>ChangelogMgmt.update_and_lock\<close>, lines 204 to 246.  The global changelog is always
  loaded from \<open>CHANGELOG_FILE\<close> (line 208); the assertion of line 244 is made only when
  the save path is that file.
\<close>

definition update_and_lock ::
  "rule list \<Rightarrow> string \<Rightarrow> bool \<Rightarrow> state \<Rightarrow> error option \<times> rule list \<times> state" where
  "update_and_lock rules save_path dry_run st =
     (case map_of (changelog_files st) CHANGELOG_FILE of
        None \<Rightarrow> (Some (FileNotFoundError CHANGELOG_FILE), rules, st)
      | Some changelog \<Rightarrow>
          (case update_rules dry_run (today st) rules changelog (rule_files st) of
             (Some e, rules', changelog', files') \<Rightarrow> (Some e, rules', st\<lparr>rule_files := files'\<rparr>)
           | (None, rules', changelog', files') \<Rightarrow>
               (let st1 = st\<lparr>rule_files := files'\<rparr>
                in if dry_run then (None, rules', st1)
                   else if save_path = CHANGELOG_FILE \<and> \<not> versions_locked rules' st1 then
                     (Some (AssertionError
                        ''Rule versions must be locked before locking the primary changelog''),
                      rules', st1)
                   else (None, rules',
                         st1\<lparr>changelog_files :=
                               AList.update save_path changelog' (changelog_files st1)\<rparr>))))"

section \<open>packaging.py: manage\_versions\<close>

record options =
  exclude_version_update :: bool
  add_new :: bool
  save_changes :: bool

definition default_options :: options where
  "default_options = \<lparr>exclude_version_update = False, add_new = True, save_changes = False\<rparr>"

text \<open>
  \<^verbatim>\<open>manage_versions\<close>, lines 63 to 148.  The result is the returned triple
  (changed rule ids, new rule ids, newly deprecated rule ids), or the exception that
  \<^verbatim>\<open>update_and_lock\<close> raised at line 134, together with the rule objects and the state
  as the call leaves them.
\<close>

definition manage_versions ::
  "rule list \<Rightarrow> rule list \<Rightarrow> options \<Rightarrow> state
   \<Rightarrow> (error + string list \<times> string list \<times> string list) \<times> rule list \<times> state" where
  "manage_versions rules deprecated_rules opts st =
     (case version_rules (exclude_version_update opts) rules (load_versions st) [] [] of
        (rules1, current_versions, new_rules, changed_rules) \<Rightarrow>
     (case (if deprecated_rules \<noteq> []
            then deprecate_rules (today st) (CurrentSchema_STACK_VERSION st) deprecated_rules
                   (deprecated_rules_json st) []
            else ([], [])) of
        (rule_deprecations, newly_deprecated) \<Rightarrow>
     (let st1 = st\<lparr>versions := current_versions\<rparr>;
          result = (changed_rules, map fst new_rules, newly_deprecated)
      in if new_rules \<noteq> [] \<or> changed_rules \<noteq> [] \<or> newly_deprecated \<noteq> [] then
           if save_changes opts then
             (let st2 = (if changed_rules \<noteq> [] \<or> (new_rules \<noteq> [] \<and> add_new opts) then
                           (let cv = dict_update current_versions
                                       (if add_new opts then new_rules else [])
                            in st1\<lparr>versions := cv,
                                   version_lock_json := sort_key (\<lambda>x. rule_name (snd x)) cv\<rparr>)
                         else st1);
                  st3 = (if newly_deprecated \<noteq> [] then
                           st2\<lparr>deprecated_rules_json :=
                                 sort_key (\<lambda>e. dep_rule_name (snd e)) rule_deprecations\<rparr>
                         else st2)
              in case update_and_lock rules1 CHANGELOG_FILE False st3 of
                   (Some e, rules2, st4) \<Rightarrow> (Inl e, rules2, st4)
                 | (None, rules2, st4) \<Rightarrow> (Inr result, rules2, st4))
           else (Inr result, rules1, st1)
         else (Inr result, rules1, st1))))"

section \<open>schemas/\_\_init\_\_.py: downgrade\<close>

text \<open>
  The schema classes (v7\_8.py to v7\_13.py, base.py) and class \<^verbatim>\<open>Version\<close> (semver.py) are
  not in src, so they are parameters: \<open>'s\<close> is the type of schema classes, and a
  \<open>schema_api\<close> gives their constant \<^verbatim>\<open>STACK_VERSION\<close>, their accessor \<^verbatim>\<open>versioned()\<close>,
  their class method \<^verbatim>\<open>downgrade(target_cls, document, role)\<close> (\<open>Inl\<close> when it raises)
  and the constructor \<^verbatim>\<open>Version(str)\<close>, a tuple of components.  A payload is a dict
  with values of any type \<open>'a\<close>.
\<close>

record ('s, 'a, 'e, 'v) schema_api =
  STACK_VERSION :: "'s \<Rightarrow> string"
  versioned :: "'s \<Rightarrow> 's"
  schema_downgrade :: "'s \<Rightarrow> 's \<Rightarrow> 'a dict \<Rightarrow> 'a option \<Rightarrow> 'e + 'a dict"
  Version :: "string \<Rightarrow> 'v list"

text \<open>
  \<open>UnableToDowngrade\<close> is the ValueError of line 56, with the two versions of its
  message; \<open>Raised e\<close> is an exception \<open>e\<close> coming out of a schema's own downgrade.
\<close>

datatype 'e downgrade_error = UnableToDowngrade string string | Raised 'e

text \<open>The loop of lines 60 to 69, over \<^verbatim>\<open>reversed(all_schemas)\<close>.\<close>

fun downgrade_loop ::
  "('s, 'a, 'e, 'v) schema_api \<Rightarrow> bool \<Rightarrow> 'a option \<Rightarrow> 'v list \<Rightarrow> 's list \<Rightarrow> 's option
   \<Rightarrow> 'a dict \<Rightarrow> 'e downgrade_error + 'a dict" where
  "downgrade_loop api check_versioned role target_version [] current_schema api_contents =
     Inr api_contents"
| "downgrade_loop api check_versioned role target_version (t # ts) current_schema api_contents =
     (let target_schema = (if check_versioned then versioned api t else t)
      in case (case current_schema of
                 None \<Rightarrow> Inr api_contents
               | Some c \<Rightarrow> schema_downgrade api c target_schema api_contents role) of
           Inl e \<Rightarrow> Inl (Raised e)
         | Inr api_contents' \<Rightarrow>
             if Version api (STACK_VERSION api target_schema) = target_version
             then Inr api_contents'
             else downgrade_loop api check_versioned role target_version ts
                    (Some target_schema) api_contents')"

text \<open>\<^verbatim>\<open>downgrade\<close>, lines 45 to 71.  \<^verbatim>\<open>CurrentSchema\<close> is \<^verbatim>\<open>all_schemas[-1]\<close>.\<close>

definition downgrade ::
  "('s, 'a, 'e, 'v) schema_api \<Rightarrow> 's list \<Rightarrow> 'a dict \<Rightarrow> string
   \<Rightarrow> 'e downgrade_error + 'a dict" where
  "downgrade api all_schemas api_contents target_version_str =
     (let target_version = take 2 (Version api target_version_str);
          versions = map (\<lambda>schema_cls. Version api (STACK_VERSION api schema_cls)) all_schemas;
          role = map_of api_contents ''type'';
          check_versioned = (map_of api_contents ''version'' \<noteq> None)
      in if target_version \<notin> set versions then
           Inl (UnableToDowngrade (STACK_VERSION api (last all_schemas)) target_version_str)
         else downgrade_loop api check_versioned role target_version (rev all_schemas) None
                api_contents)"

text \<open>
  Modelled from the spec: a reading of version strings for the examples below, since
  semver.py is not in src: the string is cut at every dot or hyphen, and a part made of
  digits is its number.  The theorems hold for every \<open>Version\<close>.
\<close>

datatype vpart = Num nat | Str string

fun split_version :: "string \<Rightarrow> string list" where
  "split_version [] = [[]]"
| "split_version (c # cs) =
     (if c = CHR ''.'' \<or> c = CHR ''-'' then [] # split_version cs
      else (case split_version cs of
              [] \<Rightarrow> [[c]]
            | w # ws \<Rightarrow> (c # w) # ws))"

definition isdigit :: "string \<Rightarrow> bool" where
  "isdigit a = (a \<noteq> [] \<and> list_all (\<lambda>c. c \<in> set ''0123456789'') a)"

definition digits_value :: "string \<Rightarrow> nat" where
  "digits_value a = foldl (\<lambda>n c. 10 * n + (of_char c - 48)) 0 a"

definition dotted_version :: "string \<Rightarrow> vpart list" where
  "dotted_version s = map (\<lambda>a. if isdigit a then Num (digits_value a) else Str a) (split_version s)"

section \<open>rule\_loader.py: load\_rules\<close>

text \<open>
  \<^verbatim>\<open>os.path.basename\<close> and \<^verbatim>\<open>re.match(FILE_PATTERN, ...)\<close> for the pattern
  \<^verbatim>\<open>^([a-z0-9_])+\.(json|toml)$\<close>; the dollar also matches before one final newline.
\<close>

definition basename :: "string \<Rightarrow> string" where
  "basename p = rev (takeWhile (\<lambda>c. c \<noteq> CHR ''/'') (rev p))"

definition word_char :: "char \<Rightarrow> bool" where
  "word_char c = (c \<in> set ''abcdefghijklmnopqrstuvwxyz0123456789_'')"

definition match_FILE_PATTERN :: "string \<Rightarrow> bool" where
  "match_FILE_PATTERN s =
     (let s' = (if s \<noteq> [] \<and> last s = CHR 0x0A then butlast s else s)
      in takeWhile word_char s' \<noteq> [] \<and> dropWhile word_char s' \<in> {''.json'', ''.toml''})"

text \<open>
  The variables of the loop of \<^verbatim>\<open>load_rules\<close>; \<open>rules_acc\<close> is the list \<^verbatim>\<open>rules\<close>.  The list \<^verbatim>\<open>query_check_index\<close> serves
  only to name the other file in an error message and is left out, as is the text of
  the messages.
\<close>

record load_state =
  rules_acc :: "rule list"
  rule_ids :: "string list"
  rule_names :: "string list"
  queries :: "(string \<times> string \<times> string option \<times> int option) list"
  failed :: bool
  errors :: "error list"

text \<open>
  The \<^verbatim>\<open>try\<close> block of lines 119 to 148 for one file.  The second component of the file
  is what \<^verbatim>\<open>Rule(rule_file, rule_contents)\<close> gives: the rule, or the exception it raises.
  A file name that fails the pattern raises after the query key was recorded.
\<close>

definition load_rule :: "string \<times> (error + rule) \<Rightarrow> load_state \<Rightarrow> error option \<times> load_state" where
  "load_rule file s =
     (case snd file of
        Inl e \<Rightarrow> (Some e, s)
      | Inr r \<Rightarrow>
          if rule_id r \<in> set (rule_ids s) then (Some (KeyError ''duplicate ID''), s)
          else if name r \<in> set (rule_names s) then (Some (KeyError ''duplicate name''), s)
          else
            (let duplicate_key = (case parsed_query r of
                                    None \<Rightarrow> None
                                  | Some q \<Rightarrow> Some (q, rule_type r, threshold_field r,
                                                    threshold_value r))
             in if duplicate_key \<noteq> None \<and> the duplicate_key \<in> set (queries s)
                then (Some (KeyError ''duplicate query''), s)
                else
                  (let s1 = (case duplicate_key of
                               None \<Rightarrow> s
                             | Some k \<Rightarrow> s\<lparr>queries := queries s @ [k]\<rparr>)
                   in if \<not> match_FILE_PATTERN (basename (path r))
                      then (Some (ValueError ''does not meet rule name standard''), s1)
                      else (None, s1\<lparr>rules_acc := rules_acc s1 @ [r],
                                      rule_ids := rule_ids s1 @ [rule_id r],
                                      rule_names := rule_names s1 @ [name r]\<rparr>))))"

text \<open>
  The loop of lines 118 to 157: with \<^verbatim>\<open>error\<close> set the exception is raised again, otherwise
  it is recorded and the file is skipped.
\<close>

fun load_loop ::
  "bool \<Rightarrow> (string \<times> (error + rule)) list \<Rightarrow> load_state \<Rightarrow> error + load_state" where
  "load_loop error [] s = Inr s"
| "load_loop error (file # files) s =
     (case load_rule file s of
        (Some e, s') \<Rightarrow>
          if error then Inl e
          else load_loop error files (s'\<lparr>failed := True, errors := errors s' @ [e]\<rparr>)
      | (None, s') \<Rightarrow> load_loop error files s')"

text \<open>
  \<^verbatim>\<open>load_rules\<close>, lines 105 to 164, on the file lookup in effect.  The result is the
  ordered dict of line 164, rule ids to rules, in the order of the rule names.
\<close>

definition load_rules :: "(string \<times> (error + rule)) list \<Rightarrow> bool \<Rightarrow> error + rule dict" where
  "load_rules file_lookup error =
     (case load_loop error file_lookup
             \<lparr>rules_acc = [], rule_ids = [], rule_names = [], queries = [], failed = False,
              errors = []\<rparr> of
        Inl e \<Rightarrow> Inl e
      | Inr s \<Rightarrow> Inr (fold (\<lambda>r. AList.update (rule_id r) r) (sort_key name (rules_acc s)) []))"

section \<open>Example inputs\<close>

text \<open>
  A chain of six schemas named by their stack versions, where the downgrade of a schema
  drops the field that the schema added.
\<close>

definition example_api :: "(string, string, error, vpart) schema_api" where
  "example_api =
     \<lparr>STACK_VERSION = (\<lambda>c. c), versioned = (\<lambda>c. c),
      schema_downgrade = (\<lambda>c t document role. Inr (AList.delete (''added_in_'' @ c) document)),
      Version = dotted_version\<rparr>"

definition example_schemas :: "string list" where
  "example_schemas = [''7.8'', ''7.9'', ''7.10'', ''7.11'', ''7.12'', ''7.13'']"


text \<open>
  Three rules and a version lock: rule a1 is locked at version 3 with another hash,
  rule b2 is locked at version 2 with its present hash, rule c3 is not in the lock.
\<close>

definition example_rule :: "string \<Rightarrow> string \<Rightarrow> string \<Rightarrow> string \<Rightarrow> rule" where
  "example_rule p i n h =
     \<lparr>path = p, rule_id = i, name = n, get_hash = h, contents_version = None,
      maturity = ''production'', metadata_changelog = None,
      minimum_kibana_version = Some ''7.13.0'', rule_type = ''query'', parsed_query = None,
      threshold_field = None, threshold_value = None\<rparr>"

definition example_rules :: "rule list" where
  "example_rules =
     [example_rule ''rules/a.toml'' ''a1'' ''Rule A'' ''H2'',
      example_rule ''rules/b.toml'' ''b2'' ''Rule B'' ''HB'',
      example_rule ''rules/c.toml'' ''c3'' ''Rule C'' ''HC'']"

definition example_lock :: "version_lock_info dict" where
  "example_lock =
     [(''a1'', \<lparr>rule_name = ''Rule A'', version = 3, sha256 = ''H1''\<rparr>),
      (''b2'', \<lparr>rule_name = ''Rule B'', version = 2, sha256 = ''HB''\<rparr>)]"

definition example_state :: state where
  "example_state =
     \<lparr>versions = example_lock, version_lock_json = example_lock,
      deprecated_rules_json = [], changelog_files = [(CHANGELOG_FILE, [])], rule_files = [],
      production_rules = [], today = ''2021-03-01'', CurrentSchema_STACK_VERSION = ''7.13''\<rparr>"

text \<open>
  A deprecation registry that holds rule d9, and two deprecated rules: d9, and e5, which
  is not in the registry.
\<close>

definition example_registry :: "deprecation dict" where
  "example_registry =
     [(''d9'', \<lparr>dep_rule_name = ''Rule D'', deprecation_date = ''2020-06-01'',
               stack_version = ''7.9''\<rparr>)]"

definition example_deprecated_rules :: "rule list" where
  "example_deprecated_rules =
     [(example_rule ''rules/_deprecated/d.toml'' ''d9'' ''Rule D'' ''HD'')
        \<lparr>maturity := ''deprecated''\<rparr>,
      (example_rule ''rules/_deprecated/e.toml'' ''e5'' ''Rule E'' ''HE'')
        \<lparr>maturity := ''deprecated''\<rparr>]"

text \<open>Rule a1 with one pending change note in its local log.\<close>

definition example_pending_rule :: rule where
  "example_pending_rule =
     (example_rule ''rules/a.toml'' ''a1'' ''Rule A'' ''H2'')
       \<lparr>metadata_changelog :=
          Some [\<lparr>message = ''Tuned the query'', note_date = ''2021-02-20''\<rparr>]\<rparr>"

text \<open>Three rule files, of which the second repeats the rule id of the first.\<close>

definition example_files :: "(string \<times> (error + rule)) list" where
  "example_files =
     [(''rules/a.toml'', Inr (example_rule ''rules/a.toml'' ''a1'' ''Rule A'' ''H2'')),
      (''rules/b.toml'', Inr (example_rule ''rules/b.toml'' ''a1'' ''Rule B'' ''HB'')),
      (''rules/c.toml'', Inr (example_rule ''rules/c.toml'' ''c3'' ''Rule C'' ''HC''))]"

section \<open>downgrade: unknown and registered targets\<close>

lemma downgrade_loop_not_unable:
  "downgrade_loop api cv role tv ts cur p \<noteq> Inl (UnableToDowngrade a b)"
  by (induction ts arbitrary: cur p) (auto simp: Let_def split: sum.splits option.splits)

lemma downgrade_loop_returns:
  assumes "\<forall>c t d r. \<exists>q. schema_downgrade api c t d r = Inr q"
  shows "\<exists>q. downgrade_loop api cv role tv ts cur p = Inr q"
proof (induction ts arbitrary: cur p)
  case Nil
  show ?case by simp
next
  case (Cons t ts)
  let ?t = "if cv then versioned api t else t"
  have "\<exists>p'. (case cur of None \<Rightarrow> Inr p | Some c \<Rightarrow> schema_downgrade api c ?t p role) = Inr p'"
    using assms by (cases cur) simp_all
  then obtain p' where
    step: "(case cur of None \<Rightarrow> Inr p | Some c \<Rightarrow> schema_downgrade api c ?t p role) = Inr p'"
    by blast
  show ?case
    using step Cons.IH [of "Some ?t" p'] by (simp add: Let_def)
qed

text \<open>
  C7.  When the target version, cut to its first two components, is the version of no
  schema of the chain, \<open>downgrade\<close> raises the error of line 56 and returns no payload.
  When it is the version of a schema, that error is not raised, whatever the payload,
  and \<open>downgrade\<close> returns a payload as soon as no schema's own downgrade raises.
\<close>

theorem downgrade_unknown_target:
  "(take 2 (Version api target) \<notin> set (map (\<lambda>c. Version api (STACK_VERSION api c)) all_schemas)
      \<longrightarrow> downgrade api all_schemas payload target
            = Inl (UnableToDowngrade (STACK_VERSION api (last all_schemas)) target))
   \<and> (take 2 (Version api target) \<in> set (map (\<lambda>c. Version api (STACK_VERSION api c)) all_schemas)
      \<longrightarrow> (\<forall>a b. downgrade api all_schemas payload target \<noteq> Inl (UnableToDowngrade a b))
          \<and> ((\<forall>c t d r. \<exists>q. schema_downgrade api c t d r = Inr q)
               \<longrightarrow> (\<exists>q. downgrade api all_schemas payload target = Inr q)))"
  using downgrade_loop_not_unable [of api] downgrade_loop_returns [of api]
  by (auto simp: downgrade_def Let_def)

theorem downgrade_unknown_target_witness:
  "take 2 (dotted_version ''99.99'') \<notin> set (map dotted_version example_schemas)
   \<and> downgrade example_api example_schemas
         [(''type'', ''query''), (''added_in_7.12'', ''x'')] ''99.99''
       = Inl (UnableToDowngrade ''7.13'' ''99.99'')
   \<and> take 2 (dotted_version ''7.11.2'') \<in> set (map dotted_version example_schemas)
   \<and> downgrade example_api example_schemas
         [(''type'', ''query''), (''added_in_7.12'', ''x'')] ''7.11.2''
       = Inr [(''type'', ''query'')]"
  using downgrade_unknown_target [of example_api "''99.99''" example_schemas
           "[(''type'', ''query''), (''added_in_7.12'', ''x'')]"]
        downgrade_unknown_target [of example_api "''7.11.2''" example_schemas
           "[(''type'', ''query''), (''added_in_7.12'', ''x'')]"]
  by (simp add: downgrade_def example_api_def example_schemas_def dotted_version_def
        isdigit_def digits_value_def AList.delete_eq)

section \<open>The loop over the rules\<close>

lemma version_rules_append:
  "version_rules ex (xs @ ys) cv new ch =
     (case version_rules ex xs cv new ch of
        (xs', cv1, new1, ch1) \<Rightarrow>
          (case version_rules ex ys cv1 new1 ch1 of
             (ys', cv2, new2, ch2) \<Rightarrow> (xs' @ ys', cv2, new2, ch2)))"
  by (induction xs arbitrary: cv new ch) (simp_all split: option.splits prod.splits)

lemma version_rules_length:
  "version_rules ex rs cv new ch = (rs', cv', new', ch') \<Longrightarrow> length rs' = length rs"
  by (induction rs arbitrary: cv new ch rs' cv' new' ch')
     (auto split: option.splits prod.splits if_splits)

lemma version_rules_other:
  "k \<notin> rule_id ` set rs \<Longrightarrow> version_rules ex rs cv new ch = (rs', cv', new', ch')
   \<Longrightarrow> map_of cv' k = map_of cv k \<and> map_of new' k = map_of new k
       \<and> (k \<in> set ch' \<longleftrightarrow> k \<in> set ch)"
proof (induction rs arbitrary: cv new ch rs' cv' new' ch')
  case Nil
  then show ?case by simp
next
  case (Cons r rs)
  from Cons.prems(1) have k: "k \<noteq> rule_id r" "k \<notin> rule_id ` set rs" by auto
  show ?case
  proof (cases "map_of cv (rule_id r)")
    case None
    obtain a b c d where rec: "version_rules ex rs cv
        (AList.update (rule_id r) \<lparr>rule_name = name r, version = 1, sha256 = get_hash r\<rparr> new) ch
        = (a, b, c, d)" by (cases "version_rules ex rs cv
        (AList.update (rule_id r) \<lparr>rule_name = name r, version = 1, sha256 = get_hash r\<rparr> new) ch") auto
    from Cons.prems(2) None rec have eq: "cv' = b" "new' = c" "ch' = d" by auto
    from Cons.IH [OF k(2) rec] k(1) show ?thesis
      unfolding eq by (simp add: update_conv')
  next
    case (Some info)
    show ?thesis
    proof (cases "get_hash r \<noteq> sha256 info")
      case True
      let ?cv = "AList.update (rule_id r) (info\<lparr>rule_name := name r,
                   version := (if ex then version info else version info + 1),
                   sha256 := get_hash r\<rparr>) cv"
      obtain a b c d where rec: "version_rules ex rs ?cv new (ch @ [rule_id r]) = (a, b, c, d)"
        by (cases "version_rules ex rs ?cv new (ch @ [rule_id r])") auto
      from Cons.prems(2) Some True rec have eq: "cv' = b" "new' = c" "ch' = d" by auto
      from Cons.IH [OF k(2) rec] k(1) show ?thesis
        unfolding eq by (simp add: update_conv')
    next
      case False
      obtain a b c d where rec: "version_rules ex rs cv new ch = (a, b, c, d)"
        by (cases "version_rules ex rs cv new ch") auto
      from Cons.prems(2) Some False rec have eq: "cv' = b" "new' = c" "ch' = d" by auto
      from Cons.IH [OF k(2) rec] show ?thesis
        unfolding eq by simp
    qed
  qed
qed

lemma version_rules_head:
  assumes "rule_id r \<notin> rule_id ` set post"
    and "version_rules ex (r # post) cv new ch = (rs', cv', new', ch')"
  shows "case map_of cv (rule_id r) of
           None \<Rightarrow>
             rs' ! 0 = r\<lparr>contents_version := Some 1\<rparr> \<and> map_of cv' (rule_id r) = None
             \<and> map_of new' (rule_id r)
                 = Some \<lparr>rule_name = name r, version = 1, sha256 = get_hash r\<rparr>
             \<and> (rule_id r \<in> set ch' \<longleftrightarrow> rule_id r \<in> set ch)
         | Some info \<Rightarrow>
             if get_hash r \<noteq> sha256 info then
               rs' ! 0 = r\<lparr>contents_version := Some (version info + 1)\<rparr>
               \<and> map_of cv' (rule_id r)
                   = Some (info\<lparr>rule_name := name r,
                                 version := (if ex then version info else version info + 1),
                                 sha256 := get_hash r\<rparr>)
               \<and> rule_id r \<in> set ch' \<and> map_of new' (rule_id r) = map_of new (rule_id r)
             else
               rs' ! 0 = r\<lparr>contents_version := Some (version info)\<rparr>
               \<and> map_of cv' (rule_id r) = Some info
               \<and> (rule_id r \<in> set ch' \<longleftrightarrow> rule_id r \<in> set ch)
               \<and> map_of new' (rule_id r) = map_of new (rule_id r)"
proof (cases "map_of cv (rule_id r)")
  case None
  let ?new = "AList.update (rule_id r) \<lparr>rule_name = name r, version = 1, sha256 = get_hash r\<rparr> new"
  obtain a b c d where rec: "version_rules ex post cv ?new ch = (a, b, c, d)"
    by (cases "version_rules ex post cv ?new ch") auto
  from assms(2) None rec
  have eq: "rs' = r\<lparr>contents_version := Some 1\<rparr> # a" "cv' = b" "new' = c" "ch' = d" by auto
  from version_rules_other [OF assms(1) rec] None show ?thesis
    unfolding eq by (simp add: update_conv')
next
  case (Some info)
  show ?thesis
  proof (cases "get_hash r \<noteq> sha256 info")
    case True
    let ?cv = "AList.update (rule_id r) (info\<lparr>rule_name := name r,
                 version := (if ex then version info else version info + 1),
                 sha256 := get_hash r\<rparr>) cv"
    obtain a b c d where rec: "version_rules ex post ?cv new (ch @ [rule_id r]) = (a, b, c, d)"
      by (cases "version_rules ex post ?cv new (ch @ [rule_id r])") auto
    from assms(2) Some True rec
    have eq: "rs' = r\<lparr>contents_version := Some (version info + 1)\<rparr> # a"
      "cv' = b" "new' = c" "ch' = d" by auto
    from version_rules_other [OF assms(1) rec] Some True show ?thesis
      unfolding eq by (simp add: update_conv')
  next
    case False
    obtain a b c d where rec: "version_rules ex post cv new ch = (a, b, c, d)"
      by (cases "version_rules ex post cv new ch") auto
    from assms(2) Some False rec
    have eq: "rs' = r\<lparr>contents_version := Some (version info)\<rparr> # a"
      "cv' = b" "new' = c" "ch' = d" by auto
    from version_rules_other [OF assms(1) rec] Some False show ?thesis
      unfolding eq by simp
  qed
qed

lemma version_rules_at:
  assumes "rule_id r \<notin> rule_id ` set pre" and "rule_id r \<notin> rule_id ` set post"
    and "version_rules ex (pre @ r # post) cv new ch = (rs', cv', new', ch')"
  shows "case map_of cv (rule_id r) of
           None \<Rightarrow>
             rs' ! length pre = r\<lparr>contents_version := Some 1\<rparr>
             \<and> map_of cv' (rule_id r) = None
             \<and> map_of new' (rule_id r)
                 = Some \<lparr>rule_name = name r, version = 1, sha256 = get_hash r\<rparr>
             \<and> (rule_id r \<in> set ch' \<longleftrightarrow> rule_id r \<in> set ch)
         | Some info \<Rightarrow>
             if get_hash r \<noteq> sha256 info then
               rs' ! length pre = r\<lparr>contents_version := Some (version info + 1)\<rparr>
               \<and> map_of cv' (rule_id r)
                   = Some (info\<lparr>rule_name := name r,
                                 version := (if ex then version info else version info + 1),
                                 sha256 := get_hash r\<rparr>)
               \<and> rule_id r \<in> set ch' \<and> map_of new' (rule_id r) = map_of new (rule_id r)
             else
               rs' ! length pre = r\<lparr>contents_version := Some (version info)\<rparr>
               \<and> map_of cv' (rule_id r) = Some info
               \<and> (rule_id r \<in> set ch' \<longleftrightarrow> rule_id r \<in> set ch)
               \<and> map_of new' (rule_id r) = map_of new (rule_id r)"
proof -
  obtain p1 cv1 new1 ch1 where pre: "version_rules ex pre cv new ch = (p1, cv1, new1, ch1)"
    by (cases "version_rules ex pre cv new ch") auto
  obtain p2 cv2 new2 ch2 where
    post: "version_rules ex (r # post) cv1 new1 ch1 = (p2, cv2, new2, ch2)"
    by (cases "version_rules ex (r # post) cv1 new1 ch1") auto
  from assms(3) pre post
  have eq: "rs' = p1 @ p2" "cv' = cv2" "new' = new2" "ch' = ch2"
    by (simp_all add: version_rules_append)
  have len: "length p1 = length pre"
    using pre by (rule version_rules_length)
  have nth: "(p1 @ p2) ! length pre = p2 ! 0"
    using len by (simp add: nth_append)
  from version_rules_other [OF assms(1) pre]
  have same: "map_of cv1 (rule_id r) = map_of cv (rule_id r)"
    "map_of new1 (rule_id r) = map_of new (rule_id r)"
    "rule_id r \<in> set ch1 \<longleftrightarrow> rule_id r \<in> set ch" by simp_all
  from version_rules_head [OF assms(2) post] show ?thesis
    unfolding eq nth same .
qed

lemma version_rules_nth:
  assumes "distinct (map rule_id rs)" and "i < length rs"
    and "version_rules ex rs cv new ch = (rs', cv', new', ch')"
  shows "case map_of cv (rule_id (rs ! i)) of
           None \<Rightarrow>
             rs' ! i = (rs ! i)\<lparr>contents_version := Some 1\<rparr>
             \<and> map_of cv' (rule_id (rs ! i)) = None
             \<and> map_of new' (rule_id (rs ! i))
                 = Some \<lparr>rule_name = name (rs ! i), version = 1, sha256 = get_hash (rs ! i)\<rparr>
             \<and> (rule_id (rs ! i) \<in> set ch' \<longleftrightarrow> rule_id (rs ! i) \<in> set ch)
         | Some info \<Rightarrow>
             if get_hash (rs ! i) \<noteq> sha256 info then
               rs' ! i = (rs ! i)\<lparr>contents_version := Some (version info + 1)\<rparr>
               \<and> map_of cv' (rule_id (rs ! i))
                   = Some (info\<lparr>rule_name := name (rs ! i),
                                 version := (if ex then version info else version info + 1),
                                 sha256 := get_hash (rs ! i)\<rparr>)
               \<and> rule_id (rs ! i) \<in> set ch'
               \<and> map_of new' (rule_id (rs ! i)) = map_of new (rule_id (rs ! i))
             else
               rs' ! i = (rs ! i)\<lparr>contents_version := Some (version info)\<rparr>
               \<and> map_of cv' (rule_id (rs ! i)) = Some info
               \<and> (rule_id (rs ! i) \<in> set ch' \<longleftrightarrow> rule_id (rs ! i) \<in> set ch)
               \<and> map_of new' (rule_id (rs ! i)) = map_of new (rule_id (rs ! i))"
proof -
  let ?pre = "take i rs" and ?post = "drop (Suc i) rs"
  have split: "rs = ?pre @ rs ! i # ?post"
    using assms(2) by (rule id_take_nth_drop)
  have "distinct (map rule_id (?pre @ rs ! i # ?post))"
    using assms(1) split by simp
  then have notin: "rule_id (rs ! i) \<notin> rule_id ` set ?pre" "rule_id (rs ! i) \<notin> rule_id ` set ?post"
    by auto
  have run: "version_rules ex (?pre @ rs ! i # ?post) cv new ch = (rs', cv', new', ch')"
    using assms(3) split by simp
  have len: "length ?pre = i" using assms(2) by simp
  from version_rules_at [OF notin run] show ?thesis
    unfolding len .
qed

section \<open>The changelog step leaves the version lock alone\<close>

lemma update_rule_only_changelog:
  "update_rule dry date r cl files = (e, r', cl', files')
   \<Longrightarrow> r' = r\<lparr>metadata_changelog := metadata_changelog r'\<rparr>"
  by (auto simp: update_rule_def Let_def append_changelog_entry_def
           split: option.splits if_splits)

lemma update_rules_only_changelog:
  "update_rules dry date rs cl files = (e, rs', cl', files')
   \<Longrightarrow> list_all2 (\<lambda>r r'. r' = r\<lparr>metadata_changelog := metadata_changelog r'\<rparr>) rs rs'"
proof (induction rs arbitrary: cl files e rs' cl' files')
  case Nil
  then show ?case by simp
next
  case (Cons r rs)
  obtain e1 r1 cl1 f1 where one: "update_rule dry date r cl files = (e1, r1, cl1, f1)"
    by (cases "update_rule dry date r cl files") auto
  have r1: "r1 = r\<lparr>metadata_changelog := metadata_changelog r1\<rparr>"
    using one by (rule update_rule_only_changelog)
  show ?case
  proof (cases e1)
    case (Some x)
    with Cons.prems one have "rs' = r1 # rs" by simp
    with r1 show ?thesis by (simp add: list_all2_refl)
  next
    case None
    obtain e2 rs2 cl2 f2 where rest: "update_rules dry date rs cl1 f1 = (e2, rs2, cl2, f2)"
      by (cases "update_rules dry date rs cl1 f1") auto
    from Cons.prems one None rest have "rs' = r1 # rs2" by simp
    with r1 Cons.IH [OF rest] show ?thesis by simp
  qed
qed

lemma update_and_lock_frame:
  assumes "update_and_lock rs save_path dry st = (e, rs', st')"
  shows "versions st' = versions st \<and> version_lock_json st' = version_lock_json st
         \<and> deprecated_rules_json st' = deprecated_rules_json st
         \<and> list_all2 (\<lambda>r r'. r' = r\<lparr>metadata_changelog := metadata_changelog r'\<rparr>) rs rs'"
proof (cases "map_of (changelog_files st) CHANGELOG_FILE")
  case None
  with assms show ?thesis by (simp add: update_and_lock_def list_all2_refl)
next
  case (Some cl)
  obtain e1 rs1 cl1 f1 where
    loop: "update_rules dry (today st) rs cl (rule_files st) = (e1, rs1, cl1, f1)"
    by (cases "update_rules dry (today st) rs cl (rule_files st)") auto
  have rel: "list_all2 (\<lambda>r r'. r' = r\<lparr>metadata_changelog := metadata_changelog r'\<rparr>) rs rs1"
    using loop by (rule update_rules_only_changelog)
  from assms Some loop have "rs' = rs1"
    by (auto simp: update_and_lock_def Let_def split: option.splits if_splits)
  moreover from assms Some loop
  have "versions st' = versions st \<and> version_lock_json st' = version_lock_json st
         \<and> deprecated_rules_json st' = deprecated_rules_json st"
    by (auto simp: update_and_lock_def Let_def split: option.splits if_splits)
  ultimately show ?thesis using rel by simp
qed

lemma manage_versions_result:
  assumes run: "manage_versions rules deps opts st = (res, rules', st')"
    and loop: "version_rules (exclude_version_update opts) rules (versions st) [] []
                 = (rules1, cv, new, ch)"
    and dep: "(if deps \<noteq> []
               then deprecate_rules (today st) (CurrentSchema_STACK_VERSION st) deps
                      (deprecated_rules_json st) []
               else ([], [])) = (reg, newly)"
  shows "list_all2 (\<lambda>r r'. r' = r\<lparr>metadata_changelog := metadata_changelog r'\<rparr>) rules1 rules'
    \<and> (\<forall>x. res = Inr x \<longrightarrow> x = (ch, map fst new, newly))
    \<and> (\<not> save_changes opts
         \<longrightarrow> res = Inr (ch, map fst new, newly) \<and> rules' = rules1 \<and> st' = st\<lparr>versions := cv\<rparr>)
    \<and> versions st'
         = (if save_changes opts \<and> (ch \<noteq> [] \<or> (new \<noteq> [] \<and> add_new opts))
            then dict_update cv (if add_new opts then new else []) else cv)
    \<and> version_lock_json st'
         = (if save_changes opts \<and> (ch \<noteq> [] \<or> (new \<noteq> [] \<and> add_new opts))
            then sort_key (\<lambda>x. rule_name (snd x)) (dict_update cv (if add_new opts then new else []))
            else version_lock_json st)
    \<and> deprecated_rules_json st'
         = (if save_changes opts \<and> newly \<noteq> []
            then sort_key (\<lambda>e. dep_rule_name (snd e)) reg else deprecated_rules_json st)"
proof -
  let ?st1 = "st\<lparr>versions := cv\<rparr>"
  let ?st2 = "if ch \<noteq> [] \<or> (new \<noteq> [] \<and> add_new opts)
              then ?st1\<lparr>versions := dict_update cv (if add_new opts then new else []),
                        version_lock_json := sort_key (\<lambda>x. rule_name (snd x))
                           (dict_update cv (if add_new opts then new else []))\<rparr>
              else ?st1"
  let ?st3 = "if newly \<noteq> []
              then ?st2\<lparr>deprecated_rules_json := sort_key (\<lambda>e. dep_rule_name (snd e)) reg\<rparr>
              else ?st2"
  let ?result = "(ch, map fst new, newly)"
  let ?R = "\<lambda>r r'. r' = r\<lparr>metadata_changelog := metadata_changelog r'\<rparr>"
  have unfolded: "manage_versions rules deps opts st =
      (if (new \<noteq> [] \<or> ch \<noteq> [] \<or> newly \<noteq> []) \<and> save_changes opts then
         (case update_and_lock rules1 CHANGELOG_FILE False ?st3 of
            (Some e, rules2, st4) \<Rightarrow> (Inl e, rules2, st4)
          | (None, rules2, st4) \<Rightarrow> (Inr ?result, rules2, st4))
       else (Inr ?result, rules1, ?st1))"
    unfolding manage_versions_def load_versions_def loop dep
    by (simp add: Let_def)
  show ?thesis
  proof (cases "(new \<noteq> [] \<or> ch \<noteq> [] \<or> newly \<noteq> []) \<and> save_changes opts")
    case False
    have "manage_versions rules deps opts st = (Inr ?result, rules1, ?st1)"
      by (subst unfolded, subst if_not_P [OF False]) (rule refl)
    with run have "res = Inr ?result" "rules' = rules1" "st' = ?st1" by simp_all
    with False show ?thesis
      by (auto simp: list_all2_refl)
  next
    case True
    obtain e rules2 st4 where
      ual: "update_and_lock rules1 CHANGELOG_FILE False ?st3 = (e, rules2, st4)"
      by (cases "update_and_lock rules1 CHANGELOG_FILE False ?st3") auto
    have "manage_versions rules deps opts st =
         (case (e, rules2, st4) of
            (Some e, rules2, st4) \<Rightarrow> (Inl e, rules2, st4)
          | (None, rules2, st4) \<Rightarrow> (Inr ?result, rules2, st4))"
      by (subst unfolded, subst if_P [OF True], subst ual) (rule refl)
    with run
    have out: "rules' = rules2" "st' = st4" "\<forall>x. res = Inr x \<longrightarrow> x = ?result"
      by (auto split: option.splits)
    from update_and_lock_frame [OF ual]
    have frame: "versions st4 = versions ?st3" "version_lock_json st4 = version_lock_json ?st3"
      "deprecated_rules_json st4 = deprecated_rules_json ?st3" "list_all2 ?R rules1 rules2"
      by blast+
    from True out frame show ?thesis
      by simp
  qed
qed

section \<open>Dicts: sorting and update\<close>

lemma distinct_keys_sort_key:
  "distinct (map fst (sort_key f xs)) = distinct (map fst xs)"
  by (simp add: distinct_map)

lemma map_of_sort_key:
  assumes "distinct (map fst xs)"
  shows "map_of (sort_key f xs) = map_of xs"
proof (rule ext)
  fix k
  have d: "distinct (map fst (sort_key f xs))"
    using assms by (simp add: distinct_keys_sort_key)
  show "map_of (sort_key f xs) k = map_of xs k"
  proof (cases "map_of xs k")
    case None
    then have "k \<notin> fst ` set xs" by (simp add: map_of_eq_None_iff)
    then have "map_of (sort_key f xs) k = None" by (simp add: map_of_eq_None_iff)
    then show ?thesis using None by simp
  next
    case (Some v)
    then have "(k, v) \<in> set (sort_key f xs)" by (simp add: map_of_SomeD)
    then show ?thesis using Some d by simp
  qed
qed

lemma map_of_dict_update:
  "distinct (map fst other) \<Longrightarrow> map_of (dict_update d other) = map_of d ++ map_of other"
proof (induction other arbitrary: d)
  case Nil
  show ?case by (simp add: dict_update_def)
next
  case (Cons kv other)
  obtain k v where kv: "kv = (k, v)" by (cases kv)
  from Cons.prems kv have k: "k \<notin> fst ` set other" and d: "distinct (map fst other)" by auto
  have "map_of (dict_update d (kv # other)) = map_of (dict_update (AList.update k v d) other)"
    by (simp add: dict_update_def kv)
  also have "\<dots> = map_of (AList.update k v d) ++ map_of other"
    by (rule Cons.IH [OF d])
  also have "\<dots> = map_of d ++ map_of (kv # other)"
  proof (rule ext)
    fix x
    have none: "map_of other k = None" using k by (simp add: map_of_eq_None_iff)
    show "(map_of (AList.update k v d) ++ map_of other) x = (map_of d ++ map_of (kv # other)) x"
      using none by (cases "x = k") (simp_all add: kv update_conv' map_add_def split: option.splits)
  qed
  finally show ?case .
qed

lemma distinct_keys_dict_update:
  "distinct (map fst d) \<Longrightarrow> distinct (map fst (dict_update d other))"
  unfolding dict_update_def
  by (induction other arbitrary: d) (simp_all add: distinct_update)

lemma version_rules_keys:
  "version_rules ex rs cv new ch = (rs', cv', new', ch')
   \<Longrightarrow> map fst cv' = map fst cv \<and> (distinct (map fst new) \<longrightarrow> distinct (map fst new'))"
proof (induction rs arbitrary: cv new ch rs' cv' new' ch')
  case Nil
  then show ?case by simp
next
  case (Cons r rs)
  show ?case
  proof (cases "map_of cv (rule_id r)")
    case None
    let ?new = "AList.update (rule_id r) \<lparr>rule_name = name r, version = 1, sha256 = get_hash r\<rparr> new"
    obtain a b c d where rec: "version_rules ex rs cv ?new ch = (a, b, c, d)"
      by (cases "version_rules ex rs cv ?new ch") auto
    from Cons.prems None rec have eq: "cv' = b" "new' = c" by auto
    from Cons.IH [OF rec] show ?thesis
      unfolding eq by (simp add: distinct_update)
  next
    case (Some info)
    then have key: "rule_id r \<in> fst ` set cv"
      by (metis map_of_eq_None_iff option.distinct(1))
    show ?thesis
    proof (cases "get_hash r \<noteq> sha256 info")
      case True
      let ?cv = "AList.update (rule_id r) (info\<lparr>rule_name := name r,
                   version := (if ex then version info else version info + 1),
                   sha256 := get_hash r\<rparr>) cv"
      obtain a b c d where rec: "version_rules ex rs ?cv new (ch @ [rule_id r]) = (a, b, c, d)"
        by (cases "version_rules ex rs ?cv new (ch @ [rule_id r])") auto
      from Cons.prems Some True rec have eq: "cv' = b" "new' = c" by auto
      from Cons.IH [OF rec] key show ?thesis
        unfolding eq by (simp add: update_keys)
    next
      case False
      obtain a b c d where rec: "version_rules ex rs cv new ch = (a, b, c, d)"
        by (cases "version_rules ex rs cv new ch") auto
      from Cons.prems Some False rec have eq: "cv' = b" "new' = c" by auto
      from Cons.IH [OF rec] show ?thesis
        unfolding eq by simp
    qed
  qed
qed

section \<open>manage_versions: what a call leaves behind\<close>

lemma manage_versions_locks:
  assumes run: "manage_versions rules deps opts st = (res, rules', st')"
    and loop: "version_rules (exclude_version_update opts) rules (versions st) [] []
                 = (rules1, cv, new, ch)"
    and dist: "distinct (map fst (versions st))"
  shows "map_of (versions st')
           = (if save_changes opts \<and> add_new opts then map_of cv ++ map_of new else map_of cv)
    \<and> map_of (version_lock_json st')
           = (if save_changes opts \<and> (ch \<noteq> [] \<or> (new \<noteq> [] \<and> add_new opts))
              then map_of (versions st') else map_of (version_lock_json st))"
proof -
  obtain reg newly where dep: "(if deps \<noteq> []
               then deprecate_rules (today st) (CurrentSchema_STACK_VERSION st) deps
                      (deprecated_rules_json st) []
               else ([], [])) = (reg, newly)"
    by (cases "if deps \<noteq> []
               then deprecate_rules (today st) (CurrentSchema_STACK_VERSION st) deps
                      (deprecated_rules_json st) []
               else ([], [])") auto
  from version_rules_keys [OF loop] dist
  have dcv: "distinct (map fst cv)" and dnew: "distinct (map fst new)" by simp_all
  let ?other = "if add_new opts then new else []"
  have dother: "distinct (map fst ?other)" using dnew by simp
  have upd: "map_of (dict_update cv ?other) = map_of cv ++ map_of ?other"
    using dother by (rule map_of_dict_update)
  have srt: "map_of (sort_key (\<lambda>x. rule_name (snd x)) (dict_update cv ?other))
               = map_of (dict_update cv ?other)"
    using dcv by (intro map_of_sort_key distinct_keys_dict_update)
  define C where "C \<longleftrightarrow> save_changes opts \<and> (ch \<noteq> [] \<or> (new \<noteq> [] \<and> add_new opts))"
  from manage_versions_result [OF run loop dep]
  have v: "versions st' = (if C then dict_update cv ?other else cv)"
    and f: "version_lock_json st'
         = (if C then sort_key (\<lambda>x. rule_name (snd x)) (dict_update cv ?other)
            else version_lock_json st)"
    unfolding C_def by blast+
  have mv: "map_of (versions st')
           = (if save_changes opts \<and> add_new opts then map_of cv ++ map_of new else map_of cv)"
  proof (cases C)
    case True
    then have "versions st' = dict_update cv ?other" using v by simp
    then show ?thesis using upd True by (simp add: C_def)
  next
    case False
    then have "versions st' = cv" using v by simp
    moreover from False have "save_changes opts \<and> add_new opts \<longrightarrow> new = []"
      by (auto simp: C_def)
    ultimately show ?thesis by auto
  qed
  have mf: "map_of (version_lock_json st')
           = (if C then map_of (versions st') else map_of (version_lock_json st))"
  proof (cases C)
    case True
    then have "versions st' = dict_update cv ?other"
      "version_lock_json st' = sort_key (\<lambda>x. rule_name (snd x)) (dict_update cv ?other)"
      using v f by simp_all
    then show ?thesis using srt True by simp
  next
    case False
    then have "version_lock_json st' = version_lock_json st" using f by simp
    then show ?thesis using False by simp
  qed
  from mv mf show ?thesis unfolding C_def by (rule conjI)
qed

lemma manage_versions_rule:
  assumes run: "manage_versions rules deps opts st = (res, rules', st')"
    and loop: "version_rules (exclude_version_update opts) rules (versions st) [] []
                 = (rules1, cv, new, ch)"
    and i: "i < length rules"
  shows "contents_version (rules' ! i) = contents_version (rules1 ! i)
    \<and> (\<forall>c n d. res = Inr (c, n, d) \<longrightarrow> c = ch \<and> n = map fst new)
    \<and> (\<not> save_changes opts \<longrightarrow> (\<exists>c n d. res = Inr (c, n, d)))"
proof -
  obtain reg newly where dep: "(if deps \<noteq> []
               then deprecate_rules (today st) (CurrentSchema_STACK_VERSION st) deps
                      (deprecated_rules_json st) []
               else ([], [])) = (reg, newly)"
    by (cases "if deps \<noteq> []
               then deprecate_rules (today st) (CurrentSchema_STACK_VERSION st) deps
                      (deprecated_rules_json st) []
               else ([], [])") auto
  from manage_versions_result [OF run loop dep]
  have rel: "list_all2 (\<lambda>r r'. r' = r\<lparr>metadata_changelog := metadata_changelog r'\<rparr>) rules1 rules'"
    and ret: "\<forall>x. res = Inr x \<longrightarrow> x = (ch, map fst new, newly)"
    and nosave: "\<not> save_changes opts \<longrightarrow> res = Inr (ch, map fst new, newly)"
    by blast+
  have "length rules1 = length rules" using loop by (rule version_rules_length)
  with i have "i < length rules1" by simp
  from list_all2_nthD [OF rel this]
  have "rules' ! i = (rules1 ! i)\<lparr>metadata_changelog := metadata_changelog (rules' ! i)\<rparr>" .
  then have "contents_version (rules' ! i)
      = contents_version ((rules1 ! i)\<lparr>metadata_changelog := metadata_changelog (rules' ! i)\<rparr>)"
    by (rule arg_cong)
  also have "\<dots> = contents_version (rules1 ! i)" by simp
  finally have cv: "contents_version (rules' ! i) = contents_version (rules1 ! i)" .
  from ret have "\<forall>c n d. res = Inr (c, n, d) \<longrightarrow> c = ch \<and> n = map fst new" by blast
  moreover from nosave have "\<not> save_changes opts \<longrightarrow> (\<exists>c n d. res = Inr (c, n, d))" by blast
  ultimately show ?thesis using cv by blast
qed

section \<open>manage_versions: changed and unchanged rules\<close>

text \<open>
  C1.  For a rule set with pairwise distinct rule ids: a rule that is in the version lock
  with another hash gets the locked version plus one; its lock entry gets the rule's hash
  and name, and the bumped version unless \<open>exclude_version_update\<close> is set, in which case
  the stored version stays; the same entry is in version.lock.json once the lock was
  saved; the rule id is in the returned list of changed rules, and the call returns
  whenever \<open>save_changes\<close> is off.
\<close>

theorem manage_versions_changed_rule:
  assumes "distinct (map rule_id rules)" and "i < length rules"
    and "distinct (map fst (versions st))"
    and "map_of (versions st) (rule_id (rules ! i)) = Some info"
    and "get_hash (rules ! i) \<noteq> sha256 info"
    and "manage_versions rules deprecated_rules opts st = (res, rules', st')"
  shows "contents_version (rules' ! i) = Some (version info + 1)
    \<and> map_of (versions st') (rule_id (rules ! i))
        = Some \<lparr>rule_name = name (rules ! i),
                 version = (if exclude_version_update opts then version info
                            else version info + 1),
                 sha256 = get_hash (rules ! i)\<rparr>
    \<and> (save_changes opts
        \<longrightarrow> map_of (version_lock_json st') (rule_id (rules ! i))
            = map_of (versions st') (rule_id (rules ! i)))
    \<and> (\<forall>changed new dep. res = Inr (changed, new, dep) \<longrightarrow> rule_id (rules ! i) \<in> set changed)
    \<and> (\<not> save_changes opts \<longrightarrow> (\<exists>changed new dep. res = Inr (changed, new, dep)))"
proof -
  obtain rules1 cv new ch where
    loop: "version_rules (exclude_version_update opts) rules (versions st) [] []
             = (rules1, cv, new, ch)"
    by (cases "version_rules (exclude_version_update opts) rules (versions st) [] []") auto
  from version_rules_nth [OF assms(1,2) loop] assms(4,5)
  have r1: "rules1 ! i = (rules ! i)\<lparr>contents_version := Some (version info + 1)\<rparr>"
    and e1: "map_of cv (rule_id (rules ! i))
        = Some (info\<lparr>rule_name := name (rules ! i),
                     version := (if exclude_version_update opts then version info
                                 else version info + 1),
                     sha256 := get_hash (rules ! i)\<rparr>)"
    and c1: "rule_id (rules ! i) \<in> set ch"
    and n1: "map_of new (rule_id (rules ! i)) = None"
    by simp_all
  from manage_versions_rule [OF assms(6) loop assms(2)]
  have v: "contents_version (rules' ! i) = contents_version (rules1 ! i)"
    and ret: "\<forall>c n d. res = Inr (c, n, d) \<longrightarrow> c = ch \<and> n = map fst new"
    and total: "\<not> save_changes opts \<longrightarrow> (\<exists>c n d. res = Inr (c, n, d))"
    by blast+
  from manage_versions_locks [OF assms(6) loop assms(3)]
  have mv: "map_of (versions st')
           = (if save_changes opts \<and> add_new opts then map_of cv ++ map_of new else map_of cv)"
    and mf: "map_of (version_lock_json st')
           = (if save_changes opts \<and> (ch \<noteq> [] \<or> (new \<noteq> [] \<and> add_new opts))
              then map_of (versions st') else map_of (version_lock_json st))"
    by blast+
  have mem: "map_of (versions st') (rule_id (rules ! i)) = map_of cv (rule_id (rules ! i))"
    unfolding mv using n1 by (simp add: map_add_def)
  have chne: "ch \<noteq> []" using c1 by auto
  have onfile: "save_changes opts
        \<longrightarrow> map_of (version_lock_json st') (rule_id (rules ! i))
            = map_of (versions st') (rule_id (rules ! i))"
    unfolding mf using chne by simp
  have "contents_version (rules' ! i) = Some (version info + 1)"
    using v r1 by simp
  moreover have "map_of (versions st') (rule_id (rules ! i))
        = Some \<lparr>rule_name = name (rules ! i),
                 version = (if exclude_version_update opts then version info
                            else version info + 1),
                 sha256 = get_hash (rules ! i)\<rparr>"
    unfolding mem e1 by simp
  moreover have "\<forall>changed new dep. res = Inr (changed, new, dep)
                   \<longrightarrow> rule_id (rules ! i) \<in> set changed"
    using ret c1 by blast
  ultimately show ?thesis using onfile total by blast
qed

theorem manage_versions_changed_rule_witness:
  "distinct (map rule_id example_rules) \<and> (0::nat) < length example_rules
   \<and> distinct (map fst (versions example_state))
   \<and> map_of (versions example_state) (rule_id (example_rules ! 0))
       = Some \<lparr>rule_name = ''Rule A'', version = 3, sha256 = ''H1''\<rparr>
   \<and> get_hash (example_rules ! 0) \<noteq> ''H1''
   \<and> contents_version
        (fst (snd (manage_versions example_rules [] default_options example_state)) ! 0)
       = Some 4
   \<and> map_of (versions (snd (snd (manage_versions example_rules [] default_options
                                    example_state)))) ''a1''
       = Some \<lparr>rule_name = ''Rule A'', version = 4, sha256 = ''H2''\<rparr>
   \<and> fst (manage_versions example_rules [] default_options example_state)
       = Inr ([''a1''], [''c3''], [])"
  using manage_versions_changed_rule [of example_rules 0 example_state
      "\<lparr>rule_name = ''Rule A'', version = 3, sha256 = ''H1''\<rparr>" "[]" default_options
      "fst (manage_versions example_rules [] default_options example_state)"
      "fst (snd (manage_versions example_rules [] default_options example_state))"
      "snd (snd (manage_versions example_rules [] default_options example_state))"]
  by (simp add: example_rules_def example_rule_def example_state_def example_lock_def
        default_options_def manage_versions_def load_versions_def)

text \<open>
  C6.  For a rule set with pairwise distinct rule ids: a rule that is in the version lock
  with its present hash gets the locked version, is not in the returned list of changed
  rules, and its lock entry is as before, in memory and in version.lock.json.
\<close>

theorem manage_versions_unchanged_rule:
  assumes "distinct (map rule_id rules)" and "i < length rules"
    and "distinct (map fst (versions st))"
    and "map_of (versions st) (rule_id (rules ! i)) = Some info"
    and "get_hash (rules ! i) = sha256 info"
    and "manage_versions rules deprecated_rules opts st = (res, rules', st')"
  shows "contents_version (rules' ! i) = Some (version info)
    \<and> map_of (versions st') (rule_id (rules ! i)) = Some info
    \<and> (map_of (version_lock_json st) (rule_id (rules ! i)) = Some info
        \<longrightarrow> map_of (version_lock_json st') (rule_id (rules ! i)) = Some info)
    \<and> (\<forall>changed new dep. res = Inr (changed, new, dep) \<longrightarrow> rule_id (rules ! i) \<notin> set changed)
    \<and> (\<not> save_changes opts \<longrightarrow> (\<exists>changed new dep. res = Inr (changed, new, dep)))"
proof -
  obtain rules1 cv new ch where
    loop: "version_rules (exclude_version_update opts) rules (versions st) [] []
             = (rules1, cv, new, ch)"
    by (cases "version_rules (exclude_version_update opts) rules (versions st) [] []") auto
  from version_rules_nth [OF assms(1,2) loop] assms(4,5)
  have r1: "rules1 ! i = (rules ! i)\<lparr>contents_version := Some (version info)\<rparr>"
    and e1: "map_of cv (rule_id (rules ! i)) = Some info"
    and c1: "rule_id (rules ! i) \<notin> set ch"
    and n1: "map_of new (rule_id (rules ! i)) = None"
    by simp_all
  from manage_versions_rule [OF assms(6) loop assms(2)]
  have v: "contents_version (rules' ! i) = contents_version (rules1 ! i)"
    and ret: "\<forall>c n d. res = Inr (c, n, d) \<longrightarrow> c = ch \<and> n = map fst new"
    and total: "\<not> save_changes opts \<longrightarrow> (\<exists>c n d. res = Inr (c, n, d))"
    by blast+
  from manage_versions_locks [OF assms(6) loop assms(3)]
  have mv: "map_of (versions st')
           = (if save_changes opts \<and> add_new opts then map_of cv ++ map_of new else map_of cv)"
    and mf: "map_of (version_lock_json st')
           = (if save_changes opts \<and> (ch \<noteq> [] \<or> (new \<noteq> [] \<and> add_new opts))
              then map_of (versions st') else map_of (version_lock_json st))"
    by blast+
  have mem: "map_of (versions st') (rule_id (rules ! i)) = Some info"
    unfolding mv using n1 e1 by (simp add: map_add_def)
  have onfile: "map_of (version_lock_json st) (rule_id (rules ! i)) = Some info
        \<longrightarrow> map_of (version_lock_json st') (rule_id (rules ! i)) = Some info"
    unfolding mf using mem by simp
  have "contents_version (rules' ! i) = Some (version info)"
    using v r1 by simp
  moreover have "\<forall>changed new dep. res = Inr (changed, new, dep)
                   \<longrightarrow> rule_id (rules ! i) \<notin> set changed"
    using ret c1 by blast
  ultimately show ?thesis using mem onfile total by blast
qed

theorem manage_versions_unchanged_rule_witness:
  "distinct (map rule_id example_rules) \<and> (1::nat) < length example_rules
   \<and> distinct (map fst (versions example_state))
   \<and> map_of (versions example_state) (rule_id (example_rules ! 1))
       = Some \<lparr>rule_name = ''Rule B'', version = 2, sha256 = ''HB''\<rparr>
   \<and> get_hash (example_rules ! 1) = ''HB''
   \<and> contents_version
        (fst (snd (manage_versions example_rules [] default_options example_state)) ! 1)
       = Some 2
   \<and> map_of (versions (snd (snd (manage_versions example_rules [] default_options
                                    example_state)))) ''b2''
       = Some \<lparr>rule_name = ''Rule B'', version = 2, sha256 = ''HB''\<rparr>
   \<and> map_of (version_lock_json (snd (snd (manage_versions example_rules [] default_options
                                    example_state)))) ''b2''
       = Some \<lparr>rule_name = ''Rule B'', version = 2, sha256 = ''HB''\<rparr>
   \<and> fst (manage_versions example_rules [] default_options example_state)
       = Inr ([''a1''], [''c3''], [])"
  using manage_versions_unchanged_rule [of example_rules 1 example_state
      "\<lparr>rule_name = ''Rule B'', version = 2, sha256 = ''HB''\<rparr>" "[]" default_options
      "fst (manage_versions example_rules [] default_options example_state)"
      "fst (snd (manage_versions example_rules [] default_options example_state))"
      "snd (snd (manage_versions example_rules [] default_options example_state))"]
  by (simp add: example_rules_def example_rule_def example_state_def example_lock_def
        default_options_def manage_versions_def load_versions_def)

section \<open>manage_versions: new rules\<close>

text \<open>
  C2, as the code has it.  For a rule set with pairwise distinct rule ids: a rule that is
  not in the version lock gets version 1 and its id is in the returned list of new rules.
  The entry with version 1, the rule's hash and the rule's name is put in the lock, in
  memory and in version.lock.json, only when \<open>save_changes\<close> and \<open>add_new\<close> are both
  set; otherwise the lock has no entry for the rule after the call.
\<close>

theorem manage_versions_new_rule:
  assumes "distinct (map rule_id rules)" and "i < length rules"
    and "distinct (map fst (versions st))"
    and "map_of (versions st) (rule_id (rules ! i)) = None"
    and "manage_versions rules deprecated_rules opts st = (res, rules', st')"
  shows "contents_version (rules' ! i) = Some 1
    \<and> (\<forall>changed new dep. res = Inr (changed, new, dep) \<longrightarrow> rule_id (rules ! i) \<in> set new)
    \<and> (\<not> save_changes opts \<longrightarrow> (\<exists>changed new dep. res = Inr (changed, new, dep)))
    \<and> (save_changes opts \<and> add_new opts
        \<longrightarrow> map_of (versions st') (rule_id (rules ! i))
              = Some \<lparr>rule_name = name (rules ! i), version = 1, sha256 = get_hash (rules ! i)\<rparr>
            \<and> map_of (version_lock_json st') (rule_id (rules ! i))
              = Some \<lparr>rule_name = name (rules ! i), version = 1, sha256 = get_hash (rules ! i)\<rparr>)
    \<and> (\<not> (save_changes opts \<and> add_new opts)
        \<longrightarrow> map_of (versions st') (rule_id (rules ! i)) = None
            \<and> (map_of (version_lock_json st) (rule_id (rules ! i)) = None
                \<longrightarrow> map_of (version_lock_json st') (rule_id (rules ! i)) = None))"
proof -
  let ?k = "rule_id (rules ! i)"
  let ?e = "\<lparr>rule_name = name (rules ! i), version = 1, sha256 = get_hash (rules ! i)\<rparr>"
  obtain rules1 cv new ch where
    loop: "version_rules (exclude_version_update opts) rules (versions st) [] []
             = (rules1, cv, new, ch)"
    by (cases "version_rules (exclude_version_update opts) rules (versions st) [] []") auto
  from version_rules_nth [OF assms(1,2) loop] assms(4)
  have r1: "rules1 ! i = (rules ! i)\<lparr>contents_version := Some 1\<rparr>"
    and e1: "map_of cv ?k = None"
    and n1: "map_of new ?k = Some ?e"
    by simp_all
  from n1 have "(?k, ?e) \<in> set new" by (rule map_of_SomeD)
  then have innew: "?k \<in> set (map fst new)" and newne: "new \<noteq> []" by force+
  from manage_versions_rule [OF assms(5) loop assms(2)]
  have v: "contents_version (rules' ! i) = contents_version (rules1 ! i)"
    and ret: "\<forall>c n d. res = Inr (c, n, d) \<longrightarrow> c = ch \<and> n = map fst new"
    and total: "\<not> save_changes opts \<longrightarrow> (\<exists>c n d. res = Inr (c, n, d))"
    by blast+
  from manage_versions_locks [OF assms(5) loop assms(3)]
  have mv: "map_of (versions st')
           = (if save_changes opts \<and> add_new opts then map_of cv ++ map_of new else map_of cv)"
    and mf: "map_of (version_lock_json st')
           = (if save_changes opts \<and> (ch \<noteq> [] \<or> (new \<noteq> [] \<and> add_new opts))
              then map_of (versions st') else map_of (version_lock_json st))"
    by blast+
  have one: "contents_version (rules' ! i) = Some 1"
    using v r1 by simp
  have reported: "\<forall>changed new dep. res = Inr (changed, new, dep) \<longrightarrow> ?k \<in> set new"
    using ret innew by blast
  have saved: "save_changes opts \<and> add_new opts
        \<longrightarrow> map_of (versions st') ?k = Some ?e \<and> map_of (version_lock_json st') ?k = Some ?e"
  proof
    assume on: "save_changes opts \<and> add_new opts"
    have "map_of (versions st') = map_of cv ++ map_of new"
      by (subst mv) (rule if_P [OF on])
    then have a: "map_of (versions st') ?k = Some ?e" using n1 by (simp add: map_add_def)
    from on newne have "map_of (version_lock_json st') = map_of (versions st')"
      using mf by simp
    with a show "map_of (versions st') ?k = Some ?e \<and> map_of (version_lock_json st') ?k = Some ?e"
      by simp
  qed
  have unsaved: "\<not> (save_changes opts \<and> add_new opts)
        \<longrightarrow> map_of (versions st') ?k = None
            \<and> (map_of (version_lock_json st) ?k = None
                \<longrightarrow> map_of (version_lock_json st') ?k = None)"
  proof
    assume off: "\<not> (save_changes opts \<and> add_new opts)"
    have "map_of (versions st') = map_of cv"
      by (subst mv) (rule if_not_P [OF off])
    then have a: "map_of (versions st') ?k = None" using e1 by simp
    have "map_of (version_lock_json st') ?k = map_of (versions st') ?k
          \<or> map_of (version_lock_json st') ?k = map_of (version_lock_json st) ?k"
      unfolding mf by simp
    with a show "map_of (versions st') ?k = None
            \<and> (map_of (version_lock_json st) ?k = None
                \<longrightarrow> map_of (version_lock_json st') ?k = None)"
      by auto
  qed
  from one reported total saved unsaved show ?thesis by blast
qed

text \<open>
  With the default options (\<open>save_changes\<close> off) rule c3, which is not in the lock, is
  reported as new, and the lock has no entry for it after the call.
\<close>

theorem manage_versions_new_rule_counterexample:
  "map_of (versions example_state) ''c3'' = None
   \<and> fst (manage_versions example_rules [] default_options example_state)
       = Inr ([''a1''], [''c3''], [])
   \<and> map_of (versions (snd (snd (manage_versions example_rules [] default_options
                                    example_state)))) ''c3'' = None
   \<and> map_of (version_lock_json (snd (snd (manage_versions example_rules [] default_options
                                    example_state)))) ''c3'' = None"
  by (simp add: example_rules_def example_rule_def example_state_def example_lock_def
        default_options_def manage_versions_def load_versions_def)

theorem manage_versions_new_rule_witness:
  "distinct (map rule_id example_rules) \<and> 2 < length example_rules
   \<and> distinct (map fst (versions example_state))
   \<and> map_of (versions example_state) (rule_id (example_rules ! 2)) = None
   \<and> contents_version
        (fst (snd (manage_versions example_rules []
                     (default_options\<lparr>save_changes := True\<rparr>) example_state)) ! 2) = Some 1
   \<and> fst (manage_versions example_rules [] (default_options\<lparr>save_changes := True\<rparr>)
            example_state) = Inr ([''a1''], [''c3''], [])
   \<and> map_of (version_lock_json
        (snd (snd (manage_versions example_rules []
                     (default_options\<lparr>save_changes := True\<rparr>) example_state)))) ''c3''
       = Some \<lparr>rule_name = ''Rule C'', version = 1, sha256 = ''HC''\<rparr>
   \<and> \<not> save_changes default_options
   \<and> map_of (versions
        (snd (snd (manage_versions example_rules [] default_options example_state)))) ''c3''
       = None"
  using manage_versions_new_rule [of example_rules 2 example_state "[]"
      "default_options\<lparr>save_changes := True\<rparr>"
      "fst (manage_versions example_rules [] (default_options\<lparr>save_changes := True\<rparr>)
              example_state)"
      "fst (snd (manage_versions example_rules [] (default_options\<lparr>save_changes := True\<rparr>)
              example_state))"
      "snd (snd (manage_versions example_rules [] (default_options\<lparr>save_changes := True\<rparr>)
              example_state))"]
    manage_versions_new_rule [of example_rules 2 example_state "[]" default_options
      "fst (manage_versions example_rules [] default_options example_state)"
      "fst (snd (manage_versions example_rules [] default_options example_state))"
      "snd (snd (manage_versions example_rules [] default_options example_state))"]
  by (simp add: example_rules_def example_rule_def example_state_def example_lock_def
        default_options_def manage_versions_def load_versions_def
        load_versions_bypass_cache_def update_and_lock_def update_rule_def
        versions_locked_def CHANGELOG_FILE_def dict_update_def get_version_def
        substantive_def default_changes_def save_rule_def Let_def)

end
